theory Spec2Isabelle
  imports Main "HOL-Library.Multiset" "HOL-Library.List_Lexorder" "HOL-Library.Char_ord"
begin

section \<open>Exceptions (cream/core/exceptions.py)\<close>

text \<open>
  The messages of the package are f-strings. A message is kept as the list of its parts:
  literal text, an interpolated string (\<open>{name}\<close>, \<open>{input_path}\<close>) and an interpolated
  list of strings (\<open>{available}\<close>, \<open>{sorted(...)}\<close>), so that what a message carries can be
  read off without modelling Python's \<open>repr\<close>.
\<close>

datatype fpart = Lit string | Str string | Repr "string list"

type_synonym message = "fpart list"

text \<open>
  \<open>CreamError\<close> and its three subclasses; their messages are strings, so they pickle
  and unpickle to themselves. \<open>PyError c\<close> is an exception of class \<open>c\<close> from outside the
  package's hierarchy (\<open>TypeError\<close>, \<open>RuntimeError\<close>, ...) that is an \<open>Exception\<close>, is
  no \<open>StopIteration\<close>, and pickles and unpickles to itself, as the built-in exceptions
  with plain arguments do. The other exceptions a function can raise behave differently
  when they are raised in a pool worker: \<open>StopIteration\<close>; \<open>NotPicklable c\<close>, an
  \<open>Exception\<close> whose instance cannot be pickled; \<open>NotUnpicklable c\<close>, an \<open>Exception\<close>
  whose pickle cannot be loaded again (a constructor with required arguments that passes
  another argument tuple to \<open>Exception.__init__\<close>); and \<open>NotAnException c\<close>, a
  \<open>BaseException\<close> outside \<open>Exception\<close> (\<open>SystemExit\<close>, \<open>KeyboardInterrupt\<close>).
\<close>

datatype error =
    CreamError message
  | AudioProcessingError message
  | TextProcessingError message
  | ValidationError message
  | PyError string
  | StopIteration
  | NotPicklable string
  | NotUnpicklable string
  | NotAnException string

text \<open>\<open>isinstance(e, CreamError)\<close>.\<close>

fun is_cream_error :: "error \<Rightarrow> bool" where
  "is_cream_error (CreamError m) = True"
| "is_cream_error (AudioProcessingError m) = True"
| "is_cream_error (TextProcessingError m) = True"
| "is_cream_error (ValidationError m) = True"
| "is_cream_error e = False"

text \<open>\<open>isinstance(e, (AudioProcessingError, TextProcessingError))\<close>: the processing errors.\<close>

fun is_processing_error :: "error \<Rightarrow> bool" where
  "is_processing_error (AudioProcessingError m) = True"
| "is_processing_error (TextProcessingError m) = True"
| "is_processing_error e = False"

section \<open>Batch executor (cream/core/parallel.py)\<close>

text \<open>
  A call of \<open>process_batch\<close> that gives no result list either raises or never returns
  (the caller stays blocked in the pool's iterator).
\<close>

datatype failure = Raised error | Blocked

text \<open>
  What a run of \<open>process_batch\<close> does besides returning: the pool it creates, the task
  list it hands to the pool (\<open>pool.imap_unordered(worker_func, tasks)\<close>, once and whole),
  the calls of the worker function made by the caller's own loop, the progress advances,
  and the termination of the pool when the \<open>with\<close> block is left.
\<close>

datatype 't event = PoolCreated int | Submitted "'t list" | Called 't | Advanced | PoolTerminated

text \<open>
  The loop of the single-worker branch:
  \<^verbatim>\<open>for task in tasks: results.append(worker_func(task)); progress.update(..., advance=1)\<close>.
  A raise of the worker function, whatever the exception, leaves the loop and the function.
\<close>

fun sequential_loop ::
  "('t \<Rightarrow> error + 'r) \<Rightarrow> 't list \<Rightarrow> 'r list \<Rightarrow> 't event list \<Rightarrow> (failure + 'r list) \<times> 't event list" where
  "sequential_loop worker_func [] results evs = (Inr results, evs)"
| "sequential_loop worker_func (task # tasks) results evs =
     (case worker_func task of
        Inl e \<Rightarrow> (Inl (Raised e), evs @ [Called task])
      | Inr r \<Rightarrow> sequential_loop worker_func tasks (results @ [r]) (evs @ [Called task, Advanced]))"

text \<open>
  What the caller's iterator gets of a task that ran in a pool worker
  (\<open>multiprocessing.pool\<close>, \<open>worker\<close> and \<open>_handle_results\<close>): its outcome; or nothing,
  because the worker process ended with the exception; or nothing ever again, because the
  thread that reads the outcomes died loading this one.
\<close>

datatype 'r arrival = Arrives "error + 'r" | Never_sent | Never_read

text \<open>
  How an outcome crosses the process boundary. The worker catches \<open>Exception\<close> and sends
  the exception pickled; when pickling fails it sends a \<open>MaybeEncodingError\<close> instead; an
  exception outside \<open>Exception\<close> ends the worker process, and its task is lost.
\<close>

fun crosses :: "error + 'r \<Rightarrow> 'r arrival" where
  "crosses (Inr r) = Arrives (Inr r)"
| "crosses (Inl (NotPicklable c)) = Arrives (Inl (PyError ''MaybeEncodingError''))"
| "crosses (Inl (NotUnpicklable c)) = Never_read"
| "crosses (Inl (NotAnException c)) = Never_sent"
| "crosses (Inl e) = Arrives (Inl e)"

text \<open>
  \<open>pool.imap_unordered(worker_func, tasks)\<close> belongs to the standard library: it yields
  what arrives of every submitted task, in the order the tasks complete. That order is not
  decided by the program, so it is a parameter: \<open>order\<close> lists the indices of the tasks in
  completion order, a permutation of \<open>[0..<length tasks]\<close>.
\<close>

definition imap_unordered :: "('t \<Rightarrow> error + 'r) \<Rightarrow> 't list \<Rightarrow> nat list \<Rightarrow> 'r arrival list" where
  "imap_unordered worker_func tasks order = map (\<lambda>i. crosses (worker_func (tasks ! i))) order"

text \<open>
  The loop of the pool branch:
  \<^verbatim>\<open>for result in pool.imap_unordered(...): results.append(result); progress.update(..., advance=1)\<close>.
  The iterator's \<open>__next__\<close> returns an arrived result and raises an arrived exception:
  a \<open>StopIteration\<close> raised there ends the \<open>for\<close> loop as if the iterator were
  exhausted, any other exception leaves the function. An outcome that is never sent is
  skipped, and the iterator then never finishes (\<open>lost\<close>); at an outcome that is never
  read the caller blocks for good.
\<close>

fun parallel_loop ::
  "'r arrival list \<Rightarrow> bool \<Rightarrow> 'r list \<Rightarrow> 't event list \<Rightarrow> (failure + 'r list) \<times> 't event list" where
  "parallel_loop [] lost results evs = (if lost then (Inl Blocked, evs) else (Inr results, evs))"
| "parallel_loop (Arrives (Inr r) # rest) lost results evs =
     parallel_loop rest lost (results @ [r]) (evs @ [Advanced])"
| "parallel_loop (Arrives (Inl e) # rest) lost results evs =
     (if e = StopIteration then (Inr results, evs) else (Inl (Raised e), evs))"
| "parallel_loop (Never_sent # rest) lost results evs = parallel_loop rest True results evs"
| "parallel_loop (Never_read # rest) lost results evs = (Inl Blocked, evs)"

text \<open>
  Leaving \<^verbatim>\<open>with mp.Pool(self.num_workers) as pool:\<close>, by return or by exception,
  terminates the pool; a blocked caller never leaves it.
\<close>

fun pool_exit :: "(failure + 'r list) \<times> 't event list \<Rightarrow> (failure + 'r list) \<times> 't event list" where
  "pool_exit (Inl Blocked, evs) = (Inl Blocked, evs)"
| "pool_exit (outcome, evs) = (outcome, evs @ [PoolTerminated])"

text \<open>
  \<open>ParallelProcessor(num_workers).process_batch(tasks, worker_func)\<close>. \<open>mp.Pool(n)\<close>
  raises \<open>ValueError\<close> for \<open>n < 1\<close>.
\<close>

definition process_batch ::
  "int \<Rightarrow> nat list \<Rightarrow> 't list \<Rightarrow> ('t \<Rightarrow> error + 'r) \<Rightarrow> (failure + 'r list) \<times> 't event list" where
  "process_batch num_workers order tasks worker_func =
     (if tasks = [] then (Inr [], [])
      else if num_workers = 1 then sequential_loop worker_func tasks [] []
      else if num_workers < 1 then (Inl (Raised (PyError ''ValueError'')), [])
      else pool_exit (parallel_loop (imap_unordered worker_func tasks order) False []
             [PoolCreated num_workers, Submitted tasks]))"

text \<open>The events of a task that completes in the sequential loop.\<close>

definition completed :: "'t \<Rightarrow> 't event list" where
  "completed task = [Called task, Advanced]"


section \<open>Processor classes and their construction (cream/core/processor.py)\<close>

text \<open>
  A class as the registry and the constructors see it: its name, the names of the classes
  it inherits from (its method resolution order without itself), whether it still has an
  unimplemented abstract method, and what \<open>self.load_model()\<close> does when called
  (return a model or raise; \<open>AttributeError\<close> for a class that has no such method, whose
  constructor never calls it). A processor class inherits \<open>ModelBackedProcessor.__init__\<close>
  exactly when \<open>ModelBackedProcessor\<close> is among its bases.
\<close>

record 'm pyclass =
  cls_name :: string
  cls_bases :: "string list"
  cls_abstract :: bool
  cls_load_model :: "error + 'm"

text \<open>
  What a registry entry can hold: a class, or some object that is no class (and not
  callable), which Python's typing does not keep out of \<open>register\<close>.
\<close>

datatype 'm pyobject = Class "'m pyclass" | NotAClass

text \<open>An instance: its class and its \<open>model\<close> attribute, set only by \<open>ModelBackedProcessor\<close>.\<close>

record 'm processor =
  inst_class :: string
  inst_model :: "'m option"

definition model_backed :: "'m pyclass \<Rightarrow> bool" where
  "model_backed c = (''ModelBackedProcessor'' \<in> set (cls_bases c))"

text \<open>\<open>BaseProcessor.__init__\<close>: \<open>pass\<close>.\<close>

definition BaseProcessor_init :: "'m pyclass \<Rightarrow> 'm processor" where
  "BaseProcessor_init c = \<lparr>inst_class = cls_name c, inst_model = None\<rparr>"

text \<open>
  \<open>ModelBackedProcessor.__init__\<close>: \<open>super().__init__(); self.model = self.load_model()\<close>.
  The second component is the log of \<open>load_model\<close> invocations (the class names, in
  order): the constructor invokes the hook on every call and keeps no cache. A raise of
  the hook leaves the constructor, so no instance is returned.
\<close>

definition ModelBackedProcessor_init ::
  "'m pyclass \<Rightarrow> string list \<Rightarrow> (error + 'm processor) \<times> string list" where
  "ModelBackedProcessor_init c loads =
     (case cls_load_model c of
        Inl e \<Rightarrow> (Inl e, loads @ [cls_name c])
      | Inr m \<Rightarrow> (Inr ((BaseProcessor_init c)\<lparr>inst_model := Some m\<rparr>), loads @ [cls_name c]))"

text \<open>
  Calling a registry entry, \<open>cls()\<close>: an object that is not callable and a class with
  abstract methods raise \<open>TypeError\<close> before any \<open>__init__\<close> runs.
\<close>

fun instantiate :: "'m pyobject \<Rightarrow> string list \<Rightarrow> (error + 'm processor) \<times> string list" where
  "instantiate NotAClass loads = (Inl (PyError ''TypeError''), loads)"
| "instantiate (Class c) loads =
     (if cls_abstract c then (Inl (PyError ''TypeError''), loads)
      else if model_backed c then ModelBackedProcessor_init c loads
      else (Inr (BaseProcessor_init c), loads))"

text \<open>Instantiating a list of classes one after the other, threading the log.\<close>

fun instantiate_all ::
  "'m pyobject list \<Rightarrow> string list \<Rightarrow> (error + 'm processor) list \<times> string list" where
  "instantiate_all [] loads = ([], loads)"
| "instantiate_all (c # cs) loads =
     (let (r, loads') = instantiate c loads;
          (rs, loads'') = instantiate_all cs loads'
      in (r # rs, loads''))"

text \<open>\<open>issubclass(cls, base_class)\<close>: \<open>TypeError\<close> unless both arguments are classes.\<close>

fun issubclass :: "'m pyobject \<Rightarrow> 'm pyobject \<Rightarrow> error + bool" where
  "issubclass (Class c) (Class b) = Inr (cls_name c = cls_name b \<or> cls_name b \<in> set (cls_bases c))"
| "issubclass c b = Inl (PyError ''TypeError'')"

section \<open>Registry (cream/core/processor.py, ProcessorRegistry)\<close>

text \<open>
  \<open>self._processors\<close> is a Python dict: an association list in insertion order whose
  keys are distinct. Assigning to a key that is present replaces its value in place;
  assigning to a new key appends.
\<close>

type_synonym 'm registry = "(string \<times> 'm pyobject) list"

fun dict_set :: "('k \<times> 'v) list \<Rightarrow> 'k \<Rightarrow> 'v \<Rightarrow> ('k \<times> 'v) list" where
  "dict_set [] k v = [(k, v)]"
| "dict_set ((k', v') # d) k v = (if k' = k then (k, v) # d else (k', v') # dict_set d k v)"

definition ProcessorRegistry_init :: "'m registry" where
  "ProcessorRegistry_init = []"

definition register :: "'m registry \<Rightarrow> string \<Rightarrow> 'm pyobject \<Rightarrow> 'm registry" where
  "register reg name processor_class = dict_set reg name processor_class"

text \<open>A registry after a sequence of \<open>register\<close> calls on a fresh one.\<close>

definition registered :: "(string \<times> 'm pyobject) list \<Rightarrow> 'm registry" where
  "registered calls = foldl (\<lambda>reg (name, cls). register reg name cls) ProcessorRegistry_init calls"

definition list_processors :: "'m registry \<Rightarrow> string list" where
  "list_processors reg = map fst reg"

text \<open>
  \<open>create\<close>: \<^verbatim>\<open>f"Processor '{name}' not found. Available: {available}"\<close> is the
  message of the \<open>ValidationError\<close>; otherwise the registered class is called.
\<close>

definition create :: "'m registry \<Rightarrow> string \<Rightarrow> string list \<Rightarrow> (error + 'm processor) \<times> string list" where
  "create reg name loads =
     (case map_of reg name of
        None \<Rightarrow>
          (Inl (ValidationError
             [Lit ''Processor '', Lit [CHR 0x27], Str name, Lit [CHR 0x27],
              Lit '' not found. Available: '', Repr (list_processors reg)]), loads)
      | Some cls \<Rightarrow> instantiate cls loads)"

text \<open>
  The loop of \<open>list_processors_by_base\<close>:
  \<^verbatim>\<open>try: if issubclass(cls, base_class): results.append(name)  except Exception: continue\<close>.
\<close>

fun by_base_loop :: "(string \<times> 'm pyobject) list \<Rightarrow> 'm pyobject \<Rightarrow> string list \<Rightarrow> string list" where
  "by_base_loop [] base_class results = results"
| "by_base_loop ((name, cls) # items) base_class results =
     (case issubclass cls base_class of
        Inl e \<Rightarrow> by_base_loop items base_class results
      | Inr b \<Rightarrow> by_base_loop items base_class (if b then results @ [name] else results))"

definition list_processors_by_base :: "'m registry \<Rightarrow> 'm pyobject \<Rightarrow> string list" where
  "list_processors_by_base reg base_class = by_base_loop reg base_class []"

definition get_processor_classes :: "'m registry \<Rightarrow> (string \<times> 'm pyobject) list" where
  "get_processor_classes reg = reg"

text \<open>Whether the class registered under a name passes the capability check.\<close>

definition satisfies :: "'m registry \<Rightarrow> 'm pyobject \<Rightarrow> string \<Rightarrow> bool" where
  "satisfies reg base_class name =
     (case map_of reg name of
        None \<Rightarrow> False
      | Some cls \<Rightarrow> issubclass cls base_class = Inr True)"

section \<open>Configuration and input validation\<close>

text \<open>The fields of \<open>CreamConfig\<close> the processors read, and the global \<open>config\<close>.\<close>

record cream_config =
  audio_formats :: "string list"
  text_formats :: "string list"
  max_workers :: int

definition config :: cream_config where
  "config = \<lparr>audio_formats = [''.wav'', ''.flac'', ''.mp3'', ''.ogg'', ''.opus'', ''.m4a'',
                                ''.aiff'', ''.ac3'', ''.wma''],
             text_formats = [''.txt'', ''.csv'', ''.tsv'', ''.json''],
             max_workers = 1\<rparr>"

text \<open>
  Paths are strings; the file system is the list of the paths that exist. \<open>path_name\<close> (\<open>name\<close>) and
  \<open>suffix\<close> follow \<open>pathlib.PurePath\<close>: the final component, and its part from the
  last dot on when that dot is neither its first nor its last character. \<open>lower\<close> is
  \<open>str.lower\<close> on ASCII.
\<close>

type_synonym path = string

definition path_exists :: "path list \<Rightarrow> path \<Rightarrow> bool" where
  "path_exists fs p = (p \<in> set fs)"

definition path_name :: "path \<Rightarrow> string" where
  "path_name p = rev (takeWhile (\<lambda>c. c \<noteq> CHR ''/'') (rev p))"

definition suffix :: "path \<Rightarrow> string" where
  "suffix p =
     (let n = path_name p; ext = rev (takeWhile (\<lambda>c. c \<noteq> CHR ''.'') (rev n))
      in if CHR ''.'' \<in> set n \<and> ext \<noteq> [] \<and> length ext + 1 < length n then CHR ''.'' # ext else [])"

definition lower_char :: "char \<Rightarrow> char" where
  "lower_char c = (let n = (of_char c :: nat) in if 65 \<le> n \<and> n \<le> 90 then char_of (n + 32) else c)"

definition lower :: "string \<Rightarrow> string" where
  "lower s = map lower_char s"

text \<open>\<open>BaseProcessor.validate_input\<close>.\<close>

definition BaseProcessor_validate_input :: "path list \<Rightarrow> path \<Rightarrow> error + unit" where
  "BaseProcessor_validate_input fs input_path =
     (if \<not> path_exists fs input_path
      then Inl (ValidationError [Lit ''Input file not found: '', Str input_path])
      else Inr ())"

text \<open>
  \<open>BaseAudioProcessor.validate_input\<close> and \<open>BaseTextProcessor.validate_input\<close>;
  \<open>SUPPORTED_FORMATS\<close> is \<open>set(config.audio_formats)\<close>, and \<open>sorted\<close> of that set is the
  sorted list of its distinct members.
\<close>

definition BaseAudioProcessor_validate_input :: "cream_config \<Rightarrow> path list \<Rightarrow> path \<Rightarrow> error + unit" where
  "BaseAudioProcessor_validate_input cfg fs input_path =
     (case BaseProcessor_validate_input fs input_path of
        Inl e \<Rightarrow> Inl e
      | Inr u \<Rightarrow>
          if lower (suffix input_path) \<notin> set (audio_formats cfg)
          then Inl (ValidationError
                 [Lit ''Unsupported audio format: '', Str (suffix input_path),
                  Lit ''. Supported formats: '', Repr (sort (remdups (audio_formats cfg)))])
          else Inr ())"

definition BaseTextProcessor_validate_input :: "cream_config \<Rightarrow> path list \<Rightarrow> path \<Rightarrow> error + unit" where
  "BaseTextProcessor_validate_input cfg fs input_path =
     (case BaseProcessor_validate_input fs input_path of
        Inl e \<Rightarrow> Inl e
      | Inr u \<Rightarrow>
          if lower (suffix input_path) \<notin> set (text_formats cfg)
          then Inl (ValidationError
                 [Lit ''Unsupported text format: '', Str (suffix input_path),
                  Lit ''. Supported formats: '', Repr (sort (remdups (text_formats cfg)))])
          else Inr ())"

section \<open>Example inputs\<close>






text \<open>
  Classes of the package: \<open>AudioResampler\<close>; \<open>TextNormalizer\<close>, once with its model
  loading and once with \<open>WeTextProcessing\<close> missing (\<open>raise TextProcessingError from e\<close>);
  \<open>VAD_FSMN\<close> when \<open>AutoModel(...)\<close> itself raises, which \<open>load_model\<close> does not
  catch; and the abstract \<open>BaseAudioProcessor\<close>.
\<close>

definition AudioResampler :: "string pyclass" where
  "AudioResampler = \<lparr>cls_name = ''AudioResampler'',
     cls_bases = [''BaseAudioProcessor'', ''BaseProcessor''],
     cls_abstract = False, cls_load_model = Inl (PyError ''AttributeError'')\<rparr>"

definition TextNormalizer :: "string pyclass" where
  "TextNormalizer = \<lparr>cls_name = ''TextNormalizer'',
     cls_bases = [''ModelBackedProcessor'', ''BaseTextProcessor'', ''BaseProcessor''],
     cls_abstract = False, cls_load_model = Inr ''ZhNormalizer''\<rparr>"

definition TextNormalizer_without_dependency :: "string pyclass" where
  "TextNormalizer_without_dependency = TextNormalizer\<lparr>cls_load_model := Inl (TextProcessingError [])\<rparr>"

definition VAD_FSMN_offline :: "string pyclass" where
  "VAD_FSMN_offline = \<lparr>cls_name = ''VAD_FSMN'',
     cls_bases = [''ModelBackedProcessor'', ''BaseProcessor''],
     cls_abstract = False, cls_load_model = Inl (PyError ''ConnectionError'')\<rparr>"

definition BaseAudioProcessor :: "string pyclass" where
  "BaseAudioProcessor = \<lparr>cls_name = ''BaseAudioProcessor'', cls_bases = [''BaseProcessor''],
     cls_abstract = True, cls_load_model = Inl (PyError ''AttributeError'')\<rparr>"

definition demo_registry :: "string registry" where
  "demo_registry = registered
     [(''audio_resampler'', Class AudioResampler), (''broken'', NotAClass),
      (''text_normalizer'', Class TextNormalizer)]"

section \<open>Properties of the batch executor\<close>

lemma sequential_loop_all_succeed:
  "\<forall>t\<in>set tasks. worker_func t = Inr (result t) \<Longrightarrow>
   sequential_loop worker_func tasks results evs =
     (Inr (results @ map result tasks), evs @ concat (map completed tasks))"
  by (induction tasks arbitrary: results evs) (simp_all add: completed_def)


lemma parallel_loop_all_succeed:
  "parallel_loop (map (\<lambda>r. Arrives (Inr r)) rs) False results evs =
     (Inr (results @ rs), evs @ replicate (length rs) Advanced)"
  by (induction rs arbitrary: results evs) (simp_all add: replicate_app_Cons_same)



lemma permutation_nth_map:
  assumes "mset order = mset [0..<length tasks]"
  shows "mset (map (\<lambda>i. f (tasks ! i)) order) = mset (map f tasks)"
proof -
  have "mset (map (\<lambda>i. f (tasks ! i)) order) = image_mset (\<lambda>i. f (tasks ! i)) (mset order)"
    by simp
  also have "\<dots> = mset (map (\<lambda>i. f (tasks ! i)) [0..<length tasks])"
    using assms by simp
  also have "map (\<lambda>i. f (tasks ! i)) [0..<length tasks] = map f tasks"
    by (rule nth_equalityI) simp_all
  finally show ?thesis .
qed

text \<open>
  C2. With one worker and every task succeeding, the tasks are processed one at a time in
  submission order (each call followed by one progress advance) and the result sequence is
  the per-task results in submission order: \<open>[A, B, C]\<close> gives
  \<open>[result A, result B, result C]\<close>.
\<close>

theorem sequential_results_in_submission_order:
  assumes "\<forall>t\<in>set tasks. worker_func t = Inr (result t)"
  shows "process_batch 1 order tasks worker_func =
           (Inr (map result tasks), concat (map completed tasks))"
  using sequential_loop_all_succeed [OF assms, of "[]" "[]"]
  by (simp add: process_batch_def)

theorem sequential_results_in_submission_order_witness:
  "process_batch 1 [] [''A'', ''B'', ''C''] (\<lambda>t. Inr (t @ ''.out'') :: error + string) =
     (Inr [''A.out'', ''B.out'', ''C.out''],
      [Called ''A'', Advanced, Called ''B'', Advanced, Called ''C'', Advanced])"
proof -
  have h: "\<forall>t\<in>set [''A'', ''B'', ''C''].
      (\<lambda>t. Inr (t @ ''.out'')) t = (Inr ((\<lambda>t. t @ ''.out'') t) :: error + string)"
    by simp
  show ?thesis
    using sequential_results_in_submission_order [OF h, of "[]"]
    by (simp add: completed_def)
qed




text \<open>
  C3. With more than one worker and every task succeeding, the result sequence holds
  exactly one result per task: as a multiset it is the multiset of the per-task results.
  It lists them in completion order, which need not be submission order: for three tasks
  there is a completion order whose result sequence differs from the one in submission
  order.
\<close>

theorem parallel_results_are_a_permutation:
  fixes tasks :: "'t list"
  assumes many: "1 < num_workers"
    and perm: "mset order = mset [0..<length tasks]"
    and succeed: "\<forall>t\<in>set tasks. worker_func t = Inr (result t)"
  shows "(\<exists>results evs. process_batch num_workers order tasks worker_func = (Inr results, evs)
            \<and> results = map (\<lambda>i. result (tasks ! i)) order
            \<and> mset results = mset (map result tasks)
            \<and> length results = length tasks)
      \<and> (\<exists>order'. mset order' = mset [0..<length [''A'', ''B'', ''C'']]
            \<and> fst (process_batch 3 order' [''A'', ''B'', ''C''] (\<lambda>t. Inr (t @ ''.out'') :: error + string))
                \<noteq> Inr (map (\<lambda>t. t @ ''.out'') [''A'', ''B'', ''C'']))"
proof
  let ?F = "\<lambda>i. worker_func (tasks ! i)"
  let ?rs = "map (\<lambda>i. result (tasks ! i)) order"
  have set_order: "set order = {0..<length tasks}"
    using mset_eq_setD [OF perm] by simp
  have "\<forall>i\<in>set order. ?F i = Inr (result (tasks ! i))"
    using succeed set_order by simp
  then have imap: "imap_unordered worker_func tasks order = map (\<lambda>r. Arrives (Inr r)) ?rs"
    by (simp add: imap_unordered_def comp_def)
  have len: "length order = length tasks"
    using mset_eq_length [OF perm] by simp
  have run: "process_batch num_workers order tasks worker_func =
      (if tasks = [] then (Inr [], [])
       else (Inr ?rs, [PoolCreated num_workers, Submitted tasks] @ replicate (length order) Advanced
               @ [PoolTerminated]))"
    using many parallel_loop_all_succeed [of ?rs "[]" "[PoolCreated num_workers, Submitted tasks] :: 't event list"]
    by (simp add: process_batch_def imap)
  have empty: "tasks = [] \<Longrightarrow> ?rs = []"
    using len by simp
  have "mset ?rs = mset (map result tasks)"
    using permutation_nth_map [OF perm] .
  moreover have "length ?rs = length tasks"
    using len by simp
  ultimately show "\<exists>results evs. process_batch num_workers order tasks worker_func = (Inr results, evs)
            \<and> results = map (\<lambda>i. result (tasks ! i)) order
            \<and> mset results = mset (map result tasks)
            \<and> length results = length tasks"
    using run empty by (cases "tasks = []") simp_all
next
  have "mset [2, 0, 1] = mset [0..<length [''A'', ''B'', ''C'']]"
    by (simp add: upt_rec)
  moreover have "fst (process_batch 3 [2, 0, 1] [''A'', ''B'', ''C''] (\<lambda>t. Inr (t @ ''.out'') :: error + string))
      \<noteq> Inr (map (\<lambda>t. t @ ''.out'') [''A'', ''B'', ''C''])"
    by (simp add: process_batch_def imap_unordered_def)
  ultimately show "\<exists>order'. mset order' = mset [0..<length [''A'', ''B'', ''C'']]
            \<and> fst (process_batch 3 order' [''A'', ''B'', ''C''] (\<lambda>t. Inr (t @ ''.out'') :: error + string))
                \<noteq> Inr (map (\<lambda>t. t @ ''.out'') [''A'', ''B'', ''C''])"
    by blast
qed

theorem parallel_results_are_a_permutation_witness:
  "process_batch 3 [2, 0, 1] [''A'', ''B'', ''C''] (\<lambda>t. Inr (t @ ''.out'') :: error + string) =
     (Inr [''C.out'', ''A.out'', ''B.out''],
      [PoolCreated 3, Submitted [''A'', ''B'', ''C''], Advanced, Advanced, Advanced, PoolTerminated])
   \<and> mset [''C.out'', ''A.out'', ''B.out''] = mset (map (\<lambda>t. t @ ''.out'') [''A'', ''B'', ''C''])"
proof -
  have perm: "mset [2, 0, 1] = mset [0..<length [''A'', ''B'', ''C'']]"
    by (simp add: upt_rec)
  have succeed: "\<forall>t\<in>set [''A'', ''B'', ''C''].
      (\<lambda>t. Inr (t @ ''.out'')) t = (Inr ((\<lambda>t. t @ ''.out'') t) :: error + string)"
    by simp
  have many: "(1::int) < 3"
    by simp
  show ?thesis
    using parallel_results_are_a_permutation [OF many perm succeed]
    by (simp add: process_batch_def imap_unordered_def)
qed

section \<open>Properties of the registry\<close>

lemma dict_set_keys:
  "map fst (dict_set d k v) = (if k \<in> set (map fst d) then map fst d else map fst d @ [k])"
  by (induction d) force+

lemma dict_set_distinct:
  "distinct (map fst d) \<Longrightarrow> distinct (map fst (dict_set d k v))"
  by (simp add: dict_set_keys)

lemma map_of_dict_set:
  "map_of (dict_set d k v) = (map_of d)(k \<mapsto> v)"
  by (induction d) (auto simp: fun_eq_iff)

lemma dict_set_entries:
  "distinct (map fst d) \<Longrightarrow> filter (\<lambda>(k', v'). k' = k) (dict_set d k v) = [(k, v)]"
proof (induction d)
  case Nil
  then show ?case by simp
next
  case (Cons p d)
  obtain k' v' where p: "p = (k', v')" by (cases p)
  show ?case
  proof (cases "k' = k")
    case True
    with Cons.prems p have "k \<notin> fst ` set d" by simp
    then have "filter (\<lambda>(k', v'). k' = k) d = []"
      by (force simp: filter_empty_conv)
    with True p show ?thesis by simp
  next
    case False
    with Cons p show ?thesis by simp
  qed
qed

lemma foldl_register_distinct:
  "distinct (map fst reg) \<Longrightarrow>
   distinct (map fst (foldl (\<lambda>reg (name, cls). register reg name cls) reg calls))"
  by (induction calls arbitrary: reg) (auto simp: register_def dict_set_distinct)

lemma registered_distinct: "distinct (list_processors (registered calls))"
  unfolding registered_def list_processors_def
  by (rule foldl_register_distinct) (simp add: ProcessorRegistry_init_def)

lemma registered_snoc:
  "registered (calls @ [(name, cls)]) = register (registered calls) name cls"
  by (simp add: registered_def)

text \<open>
  C9. In every registry state (reached by any sequence of registrations), registering a
  name that is already registered succeeds and replaces: the list of names is unchanged,
  the registry holds exactly one descriptor for the name and it is the one just
  registered, names stay unique, and every other name keeps its descriptor.
\<close>

theorem register_last_write_wins:
  assumes "name \<in> set (list_processors (registered calls))"
  shows "filter (\<lambda>(k, v). k = name) (register (registered calls) name cls) = [(name, cls)]
      \<and> list_processors (register (registered calls) name cls) = list_processors (registered calls)
      \<and> distinct (list_processors (register (registered calls) name cls))
      \<and> map_of (register (registered calls) name cls) name = Some cls
      \<and> (\<forall>other. other \<noteq> name \<longrightarrow>
            map_of (register (registered calls) name cls) other = map_of (registered calls) other)
      \<and> register (registered calls) name cls = registered (calls @ [(name, cls)])"
proof -
  have d: "distinct (map fst (registered calls))"
    using registered_distinct [of calls] by (simp add: list_processors_def)
  have "filter (\<lambda>(k, v). k = name) (register (registered calls) name cls) = [(name, cls)]"
    using dict_set_entries [OF d] by (simp add: register_def)
  moreover have "list_processors (register (registered calls) name cls) = list_processors (registered calls)"
    using assms by (simp add: register_def list_processors_def dict_set_keys)
  moreover have "distinct (list_processors (register (registered calls) name cls))"
    using dict_set_distinct [OF d] by (simp add: register_def list_processors_def)
  moreover have "map_of (register (registered calls) name cls) name = Some cls"
    by (simp add: register_def map_of_dict_set)
  moreover have "\<forall>other. other \<noteq> name \<longrightarrow>
      map_of (register (registered calls) name cls) other = map_of (registered calls) other"
    by (simp add: register_def map_of_dict_set)
  ultimately show ?thesis
    by (simp add: registered_snoc)
qed


theorem register_last_write_wins_witness:
  "register (register (registered [(''text_normalizer'', Class TextNormalizer)])
       ''audio_resampler'' NotAClass) ''audio_resampler'' (Class AudioResampler) =
     [(''text_normalizer'', Class TextNormalizer), (''audio_resampler'', Class AudioResampler)]"
proof -
  have h: "''audio_resampler'' \<in> set (list_processors
      (registered [(''text_normalizer'', Class TextNormalizer), (''audio_resampler'', NotAClass)]))"
    by (simp add: registered_def register_def list_processors_def ProcessorRegistry_init_def)
  show ?thesis
    using register_last_write_wins [OF h, of "Class AudioResampler"]
    by (simp add: registered_def register_def ProcessorRegistry_init_def)
qed

lemma registered_lookup:
  "(name, cls) \<in> set (registered calls) \<Longrightarrow> map_of (registered calls) name = Some cls"
  using registered_distinct [of calls] by (simp add: list_processors_def)

lemma registered_absent:
  "name \<notin> set (list_processors (registered calls)) \<Longrightarrow> map_of (registered calls) name = None"
  by (simp add: list_processors_def map_of_eq_None_iff)

text \<open>
  C4. For a class registered under a name, \<open>create\<close> calls that class: any instance it
  returns is an instance of the registered class, and it does return one for a concrete
  class (with the loaded model when the class is model-backed and its load succeeds). For
  a name that is not registered, \<open>create\<close> fails with the not-found error (a
  \<open>ValidationError\<close> in the code) whose message carries the requested name and the list
  of the registered names.
\<close>

theorem create_registered_or_not_found:
  "((name, Class c) \<in> set (registered calls) \<longrightarrow>
      create (registered calls) name loads = instantiate (Class c) loads
      \<and> (\<forall>inst. fst (create (registered calls) name loads) = Inr inst \<longrightarrow> inst_class inst = cls_name c)
      \<and> (\<not> cls_abstract c \<and> \<not> model_backed c \<longrightarrow>
            create (registered calls) name loads =
              (Inr \<lparr>inst_class = cls_name c, inst_model = None\<rparr>, loads))
      \<and> (\<not> cls_abstract c \<and> model_backed c \<and> cls_load_model c = Inr m \<longrightarrow>
            create (registered calls) name loads =
              (Inr \<lparr>inst_class = cls_name c, inst_model = Some m\<rparr>, loads @ [cls_name c])))
   \<and> (name \<notin> set (list_processors (registered calls)) \<longrightarrow>
        create (registered calls) name loads =
          (Inl (ValidationError
             [Lit ''Processor '', Lit [CHR 0x27], Str name, Lit [CHR 0x27],
              Lit '' not found. Available: '', Repr (list_processors (registered calls))]), loads))"
proof (intro conjI impI)
  assume reg: "(name, Class c) \<in> set (registered calls)"
  show eq: "create (registered calls) name loads = instantiate (Class c) loads"
    using registered_lookup [OF reg] by (simp add: create_def)
  show "\<forall>inst. fst (create (registered calls) name loads) = Inr inst \<longrightarrow> inst_class inst = cls_name c"
    unfolding eq
    by (auto simp: ModelBackedProcessor_init_def BaseProcessor_init_def split: sum.splits if_splits)
  show "create (registered calls) name loads = (Inr \<lparr>inst_class = cls_name c, inst_model = None\<rparr>, loads)"
    if "\<not> cls_abstract c \<and> \<not> model_backed c"
    unfolding eq using that by (simp add: BaseProcessor_init_def)
  show "create (registered calls) name loads =
      (Inr \<lparr>inst_class = cls_name c, inst_model = Some m\<rparr>, loads @ [cls_name c])"
    if "\<not> cls_abstract c \<and> model_backed c \<and> cls_load_model c = Inr m"
    unfolding eq using that by (simp add: ModelBackedProcessor_init_def BaseProcessor_init_def)
next
  assume "name \<notin> set (list_processors (registered calls))"
  then show "create (registered calls) name loads =
      (Inl (ValidationError
         [Lit ''Processor '', Lit [CHR 0x27], Str name, Lit [CHR 0x27],
          Lit '' not found. Available: '', Repr (list_processors (registered calls))]), loads)"
    using registered_absent [of name calls] by (simp add: create_def)
qed

theorem create_registered_or_not_found_witness:
  "create demo_registry ''text_normalizer'' [] =
     (Inr \<lparr>inst_class = ''TextNormalizer'', inst_model = Some ''ZhNormalizer''\<rparr>, [''TextNormalizer''])
   \<and> create demo_registry ''audio_resampler'' [] =
     (Inr \<lparr>inst_class = ''AudioResampler'', inst_model = None\<rparr>, [])
   \<and> create demo_registry ''speech_vad_fsmn'' [] =
     (Inl (ValidationError
        [Lit ''Processor '', Lit [CHR 0x27], Str ''speech_vad_fsmn'', Lit [CHR 0x27],
         Lit '' not found. Available: '',
         Repr [''audio_resampler'', ''broken'', ''text_normalizer'']]), [])"
proof -
  let ?calls = "[(''audio_resampler'', Class AudioResampler), (''broken'', NotAClass),
       (''text_normalizer'', Class TextNormalizer)]"
  have reg: "demo_registry = ?calls"
    by (simp add: demo_registry_def registered_def register_def ProcessorRegistry_init_def)
  have tn: "(''text_normalizer'', Class TextNormalizer) \<in> set demo_registry"
    and ar: "(''audio_resampler'', Class AudioResampler) \<in> set demo_registry"
    and vad: "''speech_vad_fsmn'' \<notin> set (list_processors demo_registry)"
    by (simp_all add: reg list_processors_def)
  have tn_cls: "\<not> cls_abstract TextNormalizer \<and> model_backed TextNormalizer
      \<and> cls_load_model TextNormalizer = Inr ''ZhNormalizer''"
    by (simp add: TextNormalizer_def model_backed_def)
  have ar_cls: "\<not> cls_abstract AudioResampler \<and> \<not> model_backed AudioResampler"
    by (simp add: AudioResampler_def model_backed_def)
  have names: "cls_name TextNormalizer = ''TextNormalizer''" "cls_name AudioResampler = ''AudioResampler''"
    by (simp_all add: TextNormalizer_def AudioResampler_def)
  have lp: "list_processors demo_registry = [''audio_resampler'', ''broken'', ''text_normalizer'']"
    by (simp add: reg list_processors_def)
  note t1 = create_registered_or_not_found
      [of "''text_normalizer''" TextNormalizer ?calls "[]" "''ZhNormalizer''", folded demo_registry_def]
  note t2 = create_registered_or_not_found
      [of "''audio_resampler''" AudioResampler ?calls "[]" "''none''", folded demo_registry_def]
  note t3 = create_registered_or_not_found
      [of "''speech_vad_fsmn''" AudioResampler ?calls "[]" "''none''", folded demo_registry_def]
  have "create demo_registry ''text_normalizer'' [] =
     (Inr \<lparr>inst_class = ''TextNormalizer'', inst_model = Some ''ZhNormalizer''\<rparr>, [''TextNormalizer''])"
    using t1 [THEN conjunct1, THEN mp, OF tn, THEN conjunct2, THEN conjunct2, THEN conjunct2,
        THEN mp, OF tn_cls]
    by (simp add: names)
  moreover have "create demo_registry ''audio_resampler'' [] =
     (Inr \<lparr>inst_class = ''AudioResampler'', inst_model = None\<rparr>, [])"
    using t2 [THEN conjunct1, THEN mp, OF ar, THEN conjunct2, THEN conjunct2, THEN conjunct1,
        THEN mp, OF ar_cls]
    by (simp add: names)
  moreover have "create demo_registry ''speech_vad_fsmn'' [] =
     (Inl (ValidationError
        [Lit ''Processor '', Lit [CHR 0x27], Str ''speech_vad_fsmn'', Lit [CHR 0x27],
         Lit '' not found. Available: '',
         Repr [''audio_resampler'', ''broken'', ''text_normalizer'']]), [])"
    using t3 [THEN conjunct2, THEN mp, OF vad]
    by (simp add: lp)
  ultimately show ?thesis by simp
qed

lemma by_base_loop_filter:
  "by_base_loop items base_class results =
     results @ map fst (filter (\<lambda>(name, cls). issubclass cls base_class = Inr True) items)"
  by (induction items arbitrary: results) (auto split: sum.splits)

lemma filter_by_lookup:
  "distinct (map fst d) \<Longrightarrow>
   map fst (filter (\<lambda>(k, v). P v) d) =
     filter (\<lambda>k. case map_of d k of None \<Rightarrow> False | Some v \<Rightarrow> P v) (map fst d)"
proof (induction d)
  case Nil
  then show ?case by simp
next
  case (Cons p d)
  obtain k v where p: "p = (k, v)" by (cases p)
  from Cons.prems p have k: "k \<notin> set (map fst d)" and d: "distinct (map fst d)"
    by simp_all
  have "filter (\<lambda>k'. case map_of (p # d) k' of None \<Rightarrow> False | Some v \<Rightarrow> P v) (map fst d) =
      filter (\<lambda>k'. case map_of d k' of None \<Rightarrow> False | Some v \<Rightarrow> P v) (map fst d)"
    using k p by (intro filter_cong) auto
  with Cons.IH [OF d] p show ?case by simp
qed

text \<open>
  C7. In every registry state, \<open>list_processors_by_base\<close> returns exactly the names of
  \<open>list_processors\<close>, in the same order, whose registered class passes the capability
  check; an entry whose check raises is left out and nothing is raised.
\<close>

theorem list_by_base_is_filter_of_list_all:
  "list_processors_by_base (registered calls) base_class =
     filter (satisfies (registered calls) base_class) (list_processors (registered calls))
   \<and> (\<forall>name cls. (name, cls) \<in> set (registered calls) \<and> isl (issubclass cls base_class) \<longrightarrow>
         name \<notin> set (list_processors_by_base (registered calls) base_class))"
proof
  have d: "distinct (map fst (registered calls))"
    using registered_distinct [of calls] by (simp add: list_processors_def)
  have sat: "satisfies (registered calls) base_class =
      (\<lambda>k. case map_of (registered calls) k of None \<Rightarrow> False | Some cls \<Rightarrow> issubclass cls base_class = Inr True)"
    by (simp add: satisfies_def fun_eq_iff)
  show eq: "list_processors_by_base (registered calls) base_class =
     filter (satisfies (registered calls) base_class) (list_processors (registered calls))"
    using filter_by_lookup [OF d, of "\<lambda>cls. issubclass cls base_class = Inr True"]
    by (simp add: list_processors_by_base_def by_base_loop_filter sat list_processors_def)
  show "\<forall>name cls. (name, cls) \<in> set (registered calls) \<and> isl (issubclass cls base_class) \<longrightarrow>
         name \<notin> set (list_processors_by_base (registered calls) base_class)"
  proof (intro allI impI)
    fix name cls
    assume h: "(name, cls) \<in> set (registered calls) \<and> isl (issubclass cls base_class)"
    then have "map_of (registered calls) name = Some cls"
      using registered_lookup by blast
    with h have "\<not> satisfies (registered calls) base_class name"
      by (auto simp: satisfies_def)
    then show "name \<notin> set (list_processors_by_base (registered calls) base_class)"
      unfolding eq by simp
  qed
qed

theorem list_by_base_is_filter_of_list_all_witness:
  "list_processors_by_base demo_registry (Class BaseAudioProcessor) = [''audio_resampler'']
   \<and> list_processors demo_registry = [''audio_resampler'', ''broken'', ''text_normalizer'']
   \<and> issubclass NotAClass (Class BaseAudioProcessor) = (Inl (PyError ''TypeError'') :: error + bool)"
proof -
  let ?calls = "[(''audio_resampler'', Class AudioResampler), (''broken'', NotAClass),
       (''text_normalizer'', Class TextNormalizer)]"
  have reg: "demo_registry = ?calls"
    by (simp add: demo_registry_def registered_def register_def ProcessorRegistry_init_def)
  have lp: "list_processors demo_registry = [''audio_resampler'', ''broken'', ''text_normalizer'']"
    by (simp add: reg list_processors_def)
  have sat: "satisfies demo_registry (Class BaseAudioProcessor) ''audio_resampler''"
    "\<not> satisfies demo_registry (Class BaseAudioProcessor) ''broken''"
    "\<not> satisfies demo_registry (Class BaseAudioProcessor) ''text_normalizer''"
    by (simp_all add: reg satisfies_def AudioResampler_def TextNormalizer_def BaseAudioProcessor_def)
  note t = list_by_base_is_filter_of_list_all
      [of ?calls "Class BaseAudioProcessor", folded demo_registry_def]
  from t have "list_processors_by_base demo_registry (Class BaseAudioProcessor) = [''audio_resampler'']"
    by (simp add: lp sat)
  then show ?thesis
    by (simp add: lp)
qed

section \<open>Properties of model-backed construction\<close>

lemma ModelBackedProcessor_init_loads:
  "snd (ModelBackedProcessor_init c loads) = loads @ [cls_name c]"
  by (simp add: ModelBackedProcessor_init_def split: sum.splits)

lemma ModelBackedProcessor_init_outcome:
  "fst (ModelBackedProcessor_init c loads) =
     (case cls_load_model c of
        Inl e \<Rightarrow> Inl e
      | Inr m \<Rightarrow> Inr \<lparr>inst_class = cls_name c, inst_model = Some m\<rparr>)"
  by (simp add: ModelBackedProcessor_init_def BaseProcessor_init_def split: sum.splits)

lemma instantiate_all_loads:
  "snd (instantiate_all (map Class cs) loads) =
     loads @ map cls_name (filter (\<lambda>c. \<not> cls_abstract c \<and> model_backed c) cs)"
proof (induction cs arbitrary: loads)
  case Nil
  then show ?case by simp
next
  case (Cons c cs)
  have "snd (instantiate_all (map Class (c # cs)) loads) =
      snd (instantiate_all (map Class cs) (snd (instantiate (Class c) loads)))"
    by (simp add: split_beta)
  then show ?case
    by (simp add: Cons.IH ModelBackedProcessor_init_loads)
qed

lemma instantiate_all_length:
  "length (fst (instantiate_all objs loads)) = length objs"
  by (induction objs arbitrary: loads) (simp_all add: split_beta)

lemma instantiate_all_same_class:
  "\<not> cls_abstract c \<Longrightarrow> model_backed c \<Longrightarrow>
   fst (instantiate_all (replicate n (Class c)) loads) =
     replicate n (fst (ModelBackedProcessor_init c []))"
proof (induction n arbitrary: loads)
  case 0
  then show ?case by simp
next
  case (Suc n)
  have "fst (ModelBackedProcessor_init c loads) = fst (ModelBackedProcessor_init c [])"
    by (simp add: ModelBackedProcessor_init_outcome)
  with Suc show ?case
    by (simp add: split_beta)
qed

text \<open>
  C6. Every instantiation of a model-backed processor class invokes \<open>load_model\<close> itself:
  instantiating any list of classes appends to the log of \<open>load_model\<close> invocations one
  entry per instantiation of a (concrete) model-backed class, and \<open>n\<close> instantiations of
  the same model-backed class are \<open>n\<close> invocations of its hook, each instance holding the
  outcome of its own load.
\<close>

theorem every_instantiation_invokes_load_model:
  "snd (instantiate_all (map Class cs) loads) =
     loads @ map cls_name (filter (\<lambda>c. \<not> cls_abstract c \<and> model_backed c) cs)
   \<and> length (fst (instantiate_all (map Class cs) loads)) = length cs
   \<and> (\<not> cls_abstract c \<and> model_backed c \<longrightarrow>
        snd (instantiate_all (replicate n (Class c)) loads) = loads @ replicate n (cls_name c)
        \<and> count_list (snd (instantiate_all (replicate n (Class c)) loads)) (cls_name c) =
            count_list loads (cls_name c) + n
        \<and> fst (instantiate_all (replicate n (Class c)) loads) =
            replicate n (case cls_load_model c of
                Inl e \<Rightarrow> Inl e
              | Inr m \<Rightarrow> Inr \<lparr>inst_class = cls_name c, inst_model = Some m\<rparr>))"
proof (intro conjI impI)
  show "snd (instantiate_all (map Class cs) loads) =
     loads @ map cls_name (filter (\<lambda>c. \<not> cls_abstract c \<and> model_backed c) cs)"
    by (rule instantiate_all_loads)
  show "length (fst (instantiate_all (map Class cs) loads)) = length cs"
    by (simp add: instantiate_all_length)
next
  assume c: "\<not> cls_abstract c \<and> model_backed c"
  have rep: "replicate n (Class c) = map Class (replicate n c)"
    by simp
  show loads: "snd (instantiate_all (replicate n (Class c)) loads) = loads @ replicate n (cls_name c)"
    unfolding rep instantiate_all_loads using c by simp
  show "count_list (snd (instantiate_all (replicate n (Class c)) loads)) (cls_name c) =
      count_list loads (cls_name c) + n"
    unfolding loads by (induction n) simp_all
  show "fst (instantiate_all (replicate n (Class c)) loads) =
      replicate n (case cls_load_model c of
          Inl e \<Rightarrow> Inl e
        | Inr m \<Rightarrow> Inr \<lparr>inst_class = cls_name c, inst_model = Some m\<rparr>)"
    using c instantiate_all_same_class [of c n loads]
    by (simp add: ModelBackedProcessor_init_outcome)
qed

theorem every_instantiation_invokes_load_model_witness:
  "instantiate_all [Class TextNormalizer, Class TextNormalizer] [] =
     ([Inr \<lparr>inst_class = ''TextNormalizer'', inst_model = Some ''ZhNormalizer''\<rparr>,
       Inr \<lparr>inst_class = ''TextNormalizer'', inst_model = Some ''ZhNormalizer''\<rparr>],
      [''TextNormalizer'', ''TextNormalizer''])"
proof -
  have c: "\<not> cls_abstract TextNormalizer \<and> model_backed TextNormalizer"
    by (simp add: TextNormalizer_def model_backed_def)
  have two: "replicate 2 (Class TextNormalizer) = [Class TextNormalizer, Class TextNormalizer]"
    by (simp add: numeral_2_eq_2)
  have vals: "cls_name TextNormalizer = ''TextNormalizer''"
    "cls_load_model TextNormalizer = Inr ''ZhNormalizer''"
    by (simp_all add: TextNormalizer_def)
  from every_instantiation_invokes_load_model [of "[]" "[]" TextNormalizer 2, THEN conjunct2,
      THEN conjunct2, THEN mp, OF c]
  show ?thesis
    by (simp add: two vals numeral_2_eq_2 prod_eq_iff)
qed

text \<open>
  C5, as stated, fails: \<open>ModelBackedProcessor.__init__\<close> does not wrap what
  \<open>load_model\<close> raises. A model-backed class whose \<open>load_model\<close> raises an exception from
  outside the package (as \<open>VAD_FSMN.load_model\<close> does when \<open>AutoModel(...)\<close> raises)
  fails to construct with that exception, which is no processing error and no
  \<open>CreamError\<close> at all.
\<close>

theorem failed_load_surfaces_any_error_counterexample:
  "\<not> cls_abstract VAD_FSMN_offline \<and> model_backed VAD_FSMN_offline
   \<and> cls_load_model VAD_FSMN_offline = Inl (PyError ''ConnectionError'')
   \<and> instantiate (Class VAD_FSMN_offline) [] = (Inl (PyError ''ConnectionError''), [''VAD_FSMN''])
   \<and> \<not> is_processing_error (PyError ''ConnectionError'')
   \<and> \<not> is_cream_error (PyError ''ConnectionError'')"
  by (simp add: VAD_FSMN_offline_def model_backed_def ModelBackedProcessor_init_def)

text \<open>
  C5, amended. When \<open>load_model\<close> raises during construction, the construction fails
  entirely: no instance is returned, neither by the constructor nor by \<open>create\<close>, and the
  failure surfaces as the very error \<open>load_model\<close> raised, so it is a processing error
  exactly when \<open>load_model\<close> raised one.
\<close>

theorem failed_load_aborts_construction:
  assumes "\<not> cls_abstract c" and "model_backed c" and "cls_load_model c = Inl e"
  shows "instantiate (Class c) loads = (Inl e, loads @ [cls_name c])
      \<and> (\<forall>inst. fst (instantiate (Class c) loads) \<noteq> Inr inst)
      \<and> ((name, Class c) \<in> set (registered calls) \<longrightarrow>
            create (registered calls) name loads = (Inl e, loads @ [cls_name c]))
      \<and> is_processing_error (projl (fst (instantiate (Class c) loads))) = is_processing_error e"
proof -
  have run: "instantiate (Class c) loads = (Inl e, loads @ [cls_name c])"
    using assms by (simp add: ModelBackedProcessor_init_def)
  moreover have "(name, Class c) \<in> set (registered calls) \<longrightarrow>
      create (registered calls) name loads = (Inl e, loads @ [cls_name c])"
    using registered_lookup [of name "Class c" calls] run by (auto simp: create_def)
  ultimately show ?thesis by simp
qed

theorem failed_load_aborts_construction_witness:
  "instantiate (Class TextNormalizer_without_dependency) [] =
     (Inl (TextProcessingError []), [''TextNormalizer''])
   \<and> is_processing_error (TextProcessingError [])"
proof -
  have h: "\<not> cls_abstract TextNormalizer_without_dependency"
    "model_backed TextNormalizer_without_dependency"
    "cls_load_model TextNormalizer_without_dependency = Inl (TextProcessingError [])"
    by (simp_all add: TextNormalizer_without_dependency_def TextNormalizer_def model_backed_def)
  have n: "cls_name TextNormalizer_without_dependency = ''TextNormalizer''"
    by (simp add: TextNormalizer_without_dependency_def TextNormalizer_def)
  from failed_load_aborts_construction [OF h, of "[]"]
  show ?thesis
    by (simp add: n)
qed

section \<open>Properties of input validation\<close>

lemma audio_validate_existing:
  "path_exists fs p \<Longrightarrow>
   BaseAudioProcessor_validate_input cfg fs p =
     (if lower (suffix p) \<in> set (audio_formats cfg) then Inr ()
      else Inl (ValidationError
             [Lit ''Unsupported audio format: '', Str (suffix p),
              Lit ''. Supported formats: '', Repr (sort (remdups (audio_formats cfg)))]))"
  by (simp add: BaseAudioProcessor_validate_input_def BaseProcessor_validate_input_def)

lemma text_validate_existing:
  "path_exists fs p \<Longrightarrow>
   BaseTextProcessor_validate_input cfg fs p =
     (if lower (suffix p) \<in> set (text_formats cfg) then Inr ()
      else Inl (ValidationError
             [Lit ''Unsupported text format: '', Str (suffix p),
              Lit ''. Supported formats: '', Repr (sort (remdups (text_formats cfg)))]))"
  by (simp add: BaseTextProcessor_validate_input_def BaseProcessor_validate_input_def)

lemma config_formats_lower_case:
  "f \<in> set (audio_formats config) \<union> set (text_formats config) \<Longrightarrow> lower f = f"
proof -
  have "list_all (\<lambda>f. lower f = f) (audio_formats config @ text_formats config)"
    by code_simp
  then show "f \<in> set (audio_formats config) \<union> set (text_formats config) \<Longrightarrow> lower f = f"
    by (auto simp: list_all_iff)
qed

text \<open>
  C8, as stated, fails: the extension \<open>.WAV\<close> of the existing file \<open>song.WAV\<close> is not
  in the audio allow-list, yet \<open>validate_input\<close> accepts the file, because the check
  compares the lower-cased extension.
\<close>

theorem upper_case_extension_accepted_counterexample:
  "path_exists [''song.WAV''] ''song.WAV''
   \<and> suffix ''song.WAV'' = ''.WAV''
   \<and> suffix ''song.WAV'' \<notin> set (audio_formats config)
   \<and> BaseAudioProcessor_validate_input config [''song.WAV''] ''song.WAV'' = Inr ()"
  by code_simp

text \<open>
  C8, amended. For the audio and the text processor and every existing input whose
  lower-cased extension is not in the allow-list, \<open>validate_input\<close> fails with a
  \<open>ValidationError\<close> whose message names the extension as written and enumerates the
  supported formats exactly: the allow-list sorted, each format once.
\<close>

theorem unsupported_extension_message:
  "(path_exists fs p \<and> lower (suffix p) \<notin> set (audio_formats cfg) \<longrightarrow>
      BaseAudioProcessor_validate_input cfg fs p =
        Inl (ValidationError
          [Lit ''Unsupported audio format: '', Str (suffix p),
           Lit ''. Supported formats: '', Repr (sort (remdups (audio_formats cfg)))]))
   \<and> (path_exists fs p \<and> lower (suffix p) \<notin> set (text_formats cfg) \<longrightarrow>
      BaseTextProcessor_validate_input cfg fs p =
        Inl (ValidationError
          [Lit ''Unsupported text format: '', Str (suffix p),
           Lit ''. Supported formats: '', Repr (sort (remdups (text_formats cfg)))]))
   \<and> sorted (sort (remdups (audio_formats cfg)))
   \<and> distinct (sort (remdups (audio_formats cfg)))
   \<and> set (sort (remdups (audio_formats cfg))) = set (audio_formats cfg)
   \<and> sorted (sort (remdups (text_formats cfg)))
   \<and> distinct (sort (remdups (text_formats cfg)))
   \<and> set (sort (remdups (text_formats cfg))) = set (text_formats cfg)"
  by (simp add: audio_validate_existing text_validate_existing)

theorem unsupported_extension_message_witness:
  "BaseAudioProcessor_validate_input config [''notes.txt''] ''notes.txt'' =
     Inl (ValidationError
       [Lit ''Unsupported audio format: '', Str ''.txt'', Lit ''. Supported formats: '',
        Repr [''.ac3'', ''.aiff'', ''.flac'', ''.m4a'', ''.mp3'', ''.ogg'', ''.opus'', ''.wav'', ''.wma'']])
   \<and> BaseTextProcessor_validate_input config [''take.MP3''] ''take.MP3'' =
     Inl (ValidationError
       [Lit ''Unsupported text format: '', Str ''.MP3'', Lit ''. Supported formats: '',
        Repr [''.csv'', ''.json'', ''.tsv'', ''.txt'']])"
proof -
  have a: "path_exists [''notes.txt''] ''notes.txt'' \<and> lower (suffix ''notes.txt'') \<notin> set (audio_formats config)"
    by code_simp
  have t: "path_exists [''take.MP3''] ''take.MP3'' \<and> lower (suffix ''take.MP3'') \<notin> set (text_formats config)"
    by code_simp
  have s: "suffix ''notes.txt'' = ''.txt''" "suffix ''take.MP3'' = ''.MP3''"
    by code_simp+
  have srt: "sort (remdups (audio_formats config)) =
      [''.ac3'', ''.aiff'', ''.flac'', ''.m4a'', ''.mp3'', ''.ogg'', ''.opus'', ''.wav'', ''.wma'']"
    "sort (remdups (text_formats config)) = [''.csv'', ''.json'', ''.tsv'', ''.txt'']"
    by code_simp+
  from unsupported_extension_message [of "[''notes.txt'']" "''notes.txt''" config, THEN conjunct1, THEN mp, OF a]
    unsupported_extension_message [of "[''take.MP3'']" "''take.MP3''" config, THEN conjunct2, THEN conjunct1, THEN mp, OF t]
  show ?thesis
    by (simp only: s srt simp_thms)
qed

text \<open>
  C10. The extension check lower-cases the input's extension before the comparison: an
  existing input is accepted exactly when its lower-cased extension is in the allow-list.
  So with the allow-lists of \<open>config\<close> (and with any allow-listed format written in lower
  case, as all of them are) an existing file whose extension differs only in case from an
  allow-listed format is accepted by the audio and by the text processor.
\<close>

theorem extension_check_ignores_case:
  "(path_exists fs p \<longrightarrow>
      (BaseAudioProcessor_validate_input cfg fs p = Inr ()) = (lower (suffix p) \<in> set (audio_formats cfg)))
   \<and> (path_exists fs p \<longrightarrow>
      (BaseTextProcessor_validate_input cfg fs p = Inr ()) = (lower (suffix p) \<in> set (text_formats cfg)))
   \<and> (path_exists fs p \<and> f \<in> set (audio_formats config) \<and> lower (suffix p) = lower f \<longrightarrow>
      BaseAudioProcessor_validate_input config fs p = Inr ())
   \<and> (path_exists fs p \<and> f \<in> set (text_formats config) \<and> lower (suffix p) = lower f \<longrightarrow>
      BaseTextProcessor_validate_input config fs p = Inr ())
   \<and> (path_exists fs p \<and> f \<in> set (audio_formats cfg) \<and> lower f = f \<and> lower (suffix p) = lower f \<longrightarrow>
      BaseAudioProcessor_validate_input cfg fs p = Inr ())
   \<and> (path_exists fs p \<and> f \<in> set (text_formats cfg) \<and> lower f = f \<and> lower (suffix p) = lower f \<longrightarrow>
      BaseTextProcessor_validate_input cfg fs p = Inr ())"
proof (intro conjI impI)
  show "(BaseAudioProcessor_validate_input cfg fs p = Inr ()) = (lower (suffix p) \<in> set (audio_formats cfg))"
    if "path_exists fs p"
    using that by (simp add: audio_validate_existing)
  show "(BaseTextProcessor_validate_input cfg fs p = Inr ()) = (lower (suffix p) \<in> set (text_formats cfg))"
    if "path_exists fs p"
    using that by (simp add: text_validate_existing)
  show "BaseAudioProcessor_validate_input config fs p = Inr ()"
    if "path_exists fs p \<and> f \<in> set (audio_formats config) \<and> lower (suffix p) = lower f"
    using that config_formats_lower_case [of f] by (simp add: audio_validate_existing)
  show "BaseTextProcessor_validate_input config fs p = Inr ()"
    if "path_exists fs p \<and> f \<in> set (text_formats config) \<and> lower (suffix p) = lower f"
    using that config_formats_lower_case [of f] by (simp add: text_validate_existing)
  show "BaseAudioProcessor_validate_input cfg fs p = Inr ()"
    if "path_exists fs p \<and> f \<in> set (audio_formats cfg) \<and> lower f = f \<and> lower (suffix p) = lower f"
    using that by (simp add: audio_validate_existing)
  show "BaseTextProcessor_validate_input cfg fs p = Inr ()"
    if "path_exists fs p \<and> f \<in> set (text_formats cfg) \<and> lower f = f \<and> lower (suffix p) = lower f"
    using that by (simp add: text_validate_existing)
qed

theorem extension_check_ignores_case_witness:
  "BaseAudioProcessor_validate_input config [''in/take1.Wav''] ''in/take1.Wav'' = Inr ()
   \<and> BaseTextProcessor_validate_input config [''in/README.TXT''] ''in/README.TXT'' = Inr ()"
proof -
  have a: "path_exists [''in/take1.Wav''] ''in/take1.Wav'' \<and> ''.wav'' \<in> set (audio_formats config)
      \<and> lower (suffix ''in/take1.Wav'') = lower ''.wav''"
    by code_simp
  have t: "path_exists [''in/README.TXT''] ''in/README.TXT'' \<and> ''.txt'' \<in> set (text_formats config)
      \<and> lower (suffix ''in/README.TXT'') = lower ''.txt''"
    by code_simp
  from extension_check_ignores_case [of "[''in/take1.Wav'']" "''in/take1.Wav''" config "''.wav''",
      THEN conjunct2, THEN conjunct2, THEN conjunct1, THEN mp, OF a]
    extension_check_ignores_case [of "[''in/README.TXT'']" "''in/README.TXT''" config "''.txt''",
      THEN conjunct2, THEN conjunct2, THEN conjunct2, THEN conjunct1, THEN mp, OF t]
  show ?thesis
    by simp
qed

end
